theory Spec2Isabelle
  imports Complex_Main "HOL-Library.Multiset" "HOL-Library.Sublist" "HOL-Library.AList"
begin

section \<open>Data model (src/types.ts)\<close>

text \<open>
  The raw value of the field \<^verbatim>\<open>'Invoice date'\<close> has type \<^verbatim>\<open>any\<close>. The engine only
  tests it against \<^verbatim>\<open>null\<close> and \<^verbatim>\<open>undefined\<close> and hands it to \<^verbatim>\<open>new Date\<close>. A raw
  value other than \<^verbatim>\<open>null\<close> and \<^verbatim>\<open>undefined\<close> is represented by the time value (in
  milliseconds) of the \<^verbatim>\<open>Date\<close> object built from it, \<open>None\<close> standing for \<^verbatim>\<open>NaN\<close>
  (an Invalid Date, as for the empty cell \<^verbatim>\<open>''\<close>).
\<close>

datatype rawDate = DateNull | DateUndefined | DateValue "int option"

text \<open>
  A string field that the engine reads through \<^verbatim>\<open>?.\<close> or tests for truthiness may be
  \<^verbatim>\<open>undefined\<close> or \<^verbatim>\<open>null\<close>: that is \<open>None\<close>. Strings are lists of 8-bit characters.
  A number is the real it denotes: the model has neither \<^verbatim>\<open>NaN\<close> nor the infinities, and
  a difference is the exact one, not the nearest double.
\<close>

record InvoiceData =
  originalRow :: "(string \<times> string) list"
  normalizedHeaders :: "string list"
  GSTIN :: "string option"
  Name :: "string option"
  InvoiceNo :: "string option"
  InvoiceDate :: rawDate
  taxableValue :: real

datatype Remark = MATCH | PARTIALLY_MATCHED | NOT_IN_B | NOT_IN_A

fun remarkValue :: "Remark \<Rightarrow> string" where
  "remarkValue MATCH = ''Match''"
| "remarkValue PARTIALLY_MATCHED = ''Partially Matched''"
| "remarkValue NOT_IN_B = ''In File A only''"
| "remarkValue NOT_IN_A = ''In File B only''"

datatype Confidence = High | Low

record ReconciliationResult =
  key :: string
  dataA :: "InvoiceData option"
  dataB :: "InvoiceData option"
  remark :: Remark
  matchConfidence :: "Confidence option"
  diffs :: "string list option"

section \<open>String primitives of the runtime\<close>

text \<open>
  White space as \<^verbatim>\<open>trim\<close> and the regular expression class \<^verbatim>\<open>\s\<close> see it, among the
  characters below 256: tab, line feed, vertical tab, form feed, carriage return, space
  and no-break space.

  Case mapping is the one of the characters below 256 (Latin-1). \<^verbatim>\<open>toUpperCase\<close> maps the
  letters 97-122, 224-246 and 248-254 to the character 32 below and the sharp s (223) to
  the two letters \<^verbatim>\<open>SS\<close>; \<^verbatim>\<open>toLowerCase\<close> maps the letters 65-90, 192-214 and 216-222 to
  the character 32 above. The upper case of the characters 181 and 255 lies beyond 255 and
  has no representation in an 8-bit character: the model leaves these two as they are.
\<close>

definition isWhiteSpace :: "char \<Rightarrow> bool" where
  "isWhiteSpace c = (of_char c \<in> {9, 10, 11, 12, 13, 32, 160 :: nat})"

definition trim :: "string \<Rightarrow> string" where
  "trim s = rev (dropWhile isWhiteSpace (rev (dropWhile isWhiteSpace s)))"

definition toUpperCaseChar :: "char \<Rightarrow> string" where
  "toUpperCaseChar c =
     (let n = of_char c :: nat in
      if (97 \<le> n \<and> n \<le> 122) \<or> (224 \<le> n \<and> n \<le> 246) \<or> (248 \<le> n \<and> n \<le> 254)
      then [char_of (n - 32)]
      else if n = 223 then ''SS''
      else [c])"

definition toLowerCaseChar :: "char \<Rightarrow> char" where
  "toLowerCaseChar c =
     (let n = of_char c :: nat in
      if (65 \<le> n \<and> n \<le> 90) \<or> (192 \<le> n \<and> n \<le> 214) \<or> (216 \<le> n \<and> n \<le> 222)
      then char_of (n + 32)
      else c)"

definition toUpperCase :: "string \<Rightarrow> string" where
  "toUpperCase s = concat (map toUpperCaseChar s)"

definition toLowerCase :: "string \<Rightarrow> string" where
  "toLowerCase s = map toLowerCaseChar s"

fun startsWith :: "string \<Rightarrow> string \<Rightarrow> bool" where
  "startsWith s [] = True"
| "startsWith [] (c # t) = False"
| "startsWith (d # s) (c # t) = (d = c \<and> startsWith s t)"

text \<open>\<open>includesStr s t\<close> is \<^verbatim>\<open>s.includes(t)\<close>: \<open>t\<close> occurs in \<open>s\<close> as a contiguous block.\<close>

fun includesStr :: "string \<Rightarrow> string \<Rightarrow> bool" where
  "includesStr [] t = (t = [])"
| "includesStr (d # s) t = (startsWith (d # s) t \<or> includesStr s t)"

section \<open>The map from keys to records\<close>

text \<open>
  A \<^verbatim>\<open>Map\<close> iterates in the order in which its keys were first inserted; \<^verbatim>\<open>set\<close> on a
  key that is present replaces the value where it stands. The map is an association list
  in that order.
\<close>

fun mapSet :: "string \<Rightarrow> 'v \<Rightarrow> (string \<times> 'v) list \<Rightarrow> (string \<times> 'v) list" where
  "mapSet k v [] = [(k, v)]"
| "mapSet k v ((k', v') # m) = (if k' = k then (k, v) # m else (k', v') # mapSet k v m)"

fun mapGet :: "(string \<times> 'v) list \<Rightarrow> string \<Rightarrow> 'v option" where
  "mapGet [] k = None"
| "mapGet ((k', v') # m) k = (if k' = k then Some v' else mapGet m k)"

fun mapDelete :: "string \<Rightarrow> (string \<times> 'v) list \<Rightarrow> (string \<times> 'v) list" where
  "mapDelete k [] = []"
| "mapDelete k ((k', v') # m) = (if k' = k then m else (k', v') # mapDelete k m)"

definition mapValues :: "(string \<times> 'v) list \<Rightarrow> 'v list" where
  "mapValues m = map snd m"

section \<open>The reconciliation service (src/services/reconciliationService.ts)\<close>

text \<open>\<open>normalized s\<close> is \<^verbatim>\<open>s?.trim().toUpperCase()\<close>, and \<open>orEmpty x\<close> is \<^verbatim>\<open>x || ''\<close>.\<close>

definition normalized :: "string option \<Rightarrow> string option" where
  "normalized s = map_option (\<lambda>x. toUpperCase (trim x)) s"

fun orEmpty :: "string option \<Rightarrow> string" where
  "orEmpty None = []"
| "orEmpty (Some x) = x"

definition createKey :: "InvoiceData \<Rightarrow> string" where
  "createKey item =
     (let gstin = orEmpty (normalized (GSTIN item));
          invoiceNo = orEmpty (normalized (InvoiceNo item))
      in gstin @ ''-'' @ invoiceNo)"

text \<open>The test \<^verbatim>\<open>key && key !== '-'\<close> of both loops over the inputs.\<close>

definition keyOK :: "string \<Rightarrow> bool" where
  "keyOK k = (k \<noteq> [] \<and> k \<noteq> ''-'')"

fun newDate :: "rawDate \<Rightarrow> int option" where
  "newDate DateNull = Some 0"
| "newDate DateUndefined = None"
| "newDate (DateValue t) = t"

definition areDatesClose :: "rawDate \<Rightarrow> rawDate \<Rightarrow> int \<Rightarrow> bool" where
  "areDatesClose dateA dateB daysTolerance =
     (if dateA = DateNull \<or> dateA = DateUndefined \<or> dateB = DateNull \<or> dateB = DateUndefined
      then False
      else case newDate dateA of
             None \<Rightarrow> False
           | Some t1 \<Rightarrow>
               (case newDate dateB of
                  None \<Rightarrow> False
                | Some t2 \<Rightarrow>
                    (let diffTime = \<bar>t2 - t1\<bar>;
                         diffDays = \<lceil>real_of_int diffTime / (1000 * 60 * 60 * 24)\<rceil>
                     in diffDays \<le> daysTolerance)))"

definition areValuesClose :: "real \<Rightarrow> real \<Rightarrow> real \<Rightarrow> bool" where
  "areValuesClose valA valB tolerance = (\<bar>valA - valB\<bar> \<le> tolerance)"

definition areValuesEqual :: "real \<Rightarrow> real \<Rightarrow> bool" where
  "areValuesEqual valA valB = (\<bar>valA - valB\<bar> < 0.001)"

text \<open>The local function of \<^verbatim>\<open>areNamesSimilar\<close>: lower case, then every character of \<^verbatim>\<open>[\s.,-]\<close> removed.\<close>

definition simplify :: "string \<Rightarrow> string" where
  "simplify s =
     filter (\<lambda>c. \<not> (isWhiteSpace c \<or> c = CHR ''.'' \<or> c = CHR '','' \<or> c = CHR ''-''))
       (toLowerCase s)"

fun areNamesSimilar :: "string option \<Rightarrow> string option \<Rightarrow> bool" where
  "areNamesSimilar None nameB = False"
| "areNamesSimilar (Some a) None = False"
| "areNamesSimilar (Some a) (Some b) =
     (if a = [] \<or> b = [] then False
      else let simpleA = simplify a; simpleB = simplify b
           in if simpleA = [] \<or> simpleB = [] then False
              else includesStr simpleA simpleB \<or> includesStr simpleB simpleA)"

text \<open>
  \<^verbatim>\<open>toDateString\<close> prints the calendar day of a time value in the local time zone, and
  \<^verbatim>\<open>Invalid Date\<close> for \<^verbatim>\<open>NaN\<close>. The local calendar day of a time value is a parameter
  \<open>calendarDay\<close> of the model; \<open>utcDay\<close> is the one of a runtime in UTC.
\<close>

datatype dateString = InvalidDate | Day int

fun toDateString :: "(int \<Rightarrow> int) \<Rightarrow> int option \<Rightarrow> dateString" where
  "toDateString calendarDay None = InvalidDate"
| "toDateString calendarDay (Some t) = Day (calendarDay t)"

definition utcDay :: "int \<Rightarrow> int" where
  "utcDay t = t div 86400000"

text \<open>A \<^verbatim>\<open>Date\<close> object is never falsy, so \<^verbatim>\<open>!d1\<close> and \<^verbatim>\<open>!d2\<close> are false.\<close>

definition getDiffs :: "(int \<Rightarrow> int) \<Rightarrow> InvoiceData \<Rightarrow> InvoiceData \<Rightarrow> string list" where
  "getDiffs calendarDay itemA itemB =
     (if normalized (GSTIN itemA) \<noteq> normalized (GSTIN itemB) then [''GSTIN''] else []) @
     (if normalized (InvoiceNo itemA) \<noteq> normalized (InvoiceNo itemB) then [''Invoice no.''] else []) @
     (if \<not> areNamesSimilar (Name itemA) (Name itemB) then [''Name''] else []) @
     (let d1 = newDate (InvoiceDate itemA); d2 = newDate (InvoiceDate itemB)
      in if False \<or> False \<or> toDateString calendarDay d1 \<noteq> toDateString calendarDay d2
         then [''Invoice date''] else []) @
     (if \<not> areValuesEqual (taxableValue itemA) (taxableValue itemB) then [''taxable value''] else [])"

text \<open>The first loop: the lookup of the records of B by key.\<close>

definition addToMapB ::
  "(string \<times> InvoiceData) list \<Rightarrow> InvoiceData \<Rightarrow> (string \<times> InvoiceData) list" where
  "addToMapB mapB item =
     (let k = createKey item in if keyOK k then mapSet k item mapB else mapB)"

definition buildMapB :: "InvoiceData list \<Rightarrow> (string \<times> InvoiceData) list" where
  "buildMapB fileBData = foldl addToMapB [] fileBData"

text \<open>
  Step 1. The state of the loop over A is the list of results, the map and the list
  \<^verbatim>\<open>unmatchedA\<close>.
\<close>

type_synonym pass1State =
  "ReconciliationResult list \<times> (string \<times> InvoiceData) list \<times> InvoiceData list"

fun pass1Step :: "(int \<Rightarrow> int) \<Rightarrow> pass1State \<Rightarrow> InvoiceData \<Rightarrow> pass1State" where
  "pass1Step calendarDay (results, mapB, unmatchedA) itemA =
     (let k = createKey itemA in
      if \<not> keyOK k then (results, mapB, unmatchedA)
      else (case mapGet mapB k of
              Some itemB \<Rightarrow>
                (let valuesMatch = areValuesEqual (taxableValue itemA) (taxableValue itemB);
                     allDiffs = getDiffs calendarDay itemA itemB
                 in (results @
                       [\<lparr>key = k, dataA = Some itemA, dataB = Some itemB,
                         remark = (if valuesMatch then MATCH else PARTIALLY_MATCHED),
                         matchConfidence = Some High,
                         diffs = (if length allDiffs > 0 then Some allDiffs else None)\<rparr>],
                     mapDelete k mapB, unmatchedA))
            | None \<Rightarrow> (results, mapB, unmatchedA @ [itemA])))"

definition pass1 ::
  "(int \<Rightarrow> int) \<Rightarrow> InvoiceData list \<Rightarrow> (string \<times> InvoiceData) list \<Rightarrow> pass1State" where
  "pass1 calendarDay fileAData mapB = foldl (pass1Step calendarDay) ([], mapB, []) fileAData"

text \<open>
  Step 2. \<^verbatim>\<open>unmatchedBIndexes\<close> is a \<^verbatim>\<open>Set\<close> of positions of \<^verbatim>\<open>unmatchedB\<close>, iterated in
  insertion order: a list of positions. The body of the \<^verbatim>\<open>for\<close> loop updates \<^verbatim>\<open>bestMatch\<close>.
\<close>

record BestMatch =
  item :: InvoiceData
  index :: nat
  score :: nat

definition scanStep ::
  "InvoiceData \<Rightarrow> InvoiceData list \<Rightarrow> BestMatch option \<Rightarrow> nat \<Rightarrow> BestMatch option" where
  "scanStep itemA unmatchedB bestMatch i =
     (let itemB = unmatchedB ! i in
      if normalized (GSTIN itemA) \<noteq> normalized (GSTIN itemB) then bestMatch
      else
        let namesSimilar = areNamesSimilar (Name itemA) (Name itemB);
            valuesClose = areValuesClose (taxableValue itemA) (taxableValue itemB) 1.0;
            datesClose = areDatesClose (InvoiceDate itemA) (InvoiceDate itemB) 7;
            currentScore = (0::nat);
            currentScore = (if namesSimilar then currentScore + 2 else currentScore);
            currentScore = (if valuesClose then currentScore + 1 else currentScore);
            currentScore = (if datesClose then currentScore + 1 else currentScore)
        in if currentScore \<ge> 2
           then (case bestMatch of
                   None \<Rightarrow> Some \<lparr>item = itemB, index = i, score = currentScore\<rparr>
                 | Some best \<Rightarrow>
                     if currentScore > score best
                     then Some \<lparr>item = itemB, index = i, score = currentScore\<rparr>
                     else bestMatch)
           else bestMatch)"

definition findBestMatch :: "InvoiceData \<Rightarrow> InvoiceData list \<Rightarrow> nat list \<Rightarrow> BestMatch option" where
  "findBestMatch itemA unmatchedB unmatchedBIndexes =
     foldl (scanStep itemA unmatchedB) None unmatchedBIndexes"

type_synonym pass2State = "ReconciliationResult list \<times> nat list \<times> InvoiceData list"

fun pass2Step ::
  "(int \<Rightarrow> int) \<Rightarrow> InvoiceData list \<Rightarrow> pass2State \<Rightarrow> InvoiceData \<Rightarrow> pass2State" where
  "pass2Step calendarDay unmatchedB (results, unmatchedBIndexes, finalUnmatchedA) itemA =
     (case findBestMatch itemA unmatchedB unmatchedBIndexes of
        Some best \<Rightarrow>
          (let k = ''fuzzy-'' @ createKey itemA @ ''-'' @ createKey (item best)
           in (results @
                 [\<lparr>key = k, dataA = Some itemA, dataB = Some (item best),
                   remark = PARTIALLY_MATCHED, matchConfidence = Some Low,
                   diffs = Some (getDiffs calendarDay itemA (item best))\<rparr>],
               removeAll (index best) unmatchedBIndexes, finalUnmatchedA))
      | None \<Rightarrow> (results, unmatchedBIndexes, finalUnmatchedA @ [itemA]))"

definition pass2 ::
  "(int \<Rightarrow> int) \<Rightarrow> InvoiceData list \<Rightarrow> InvoiceData list \<Rightarrow> pass2State \<Rightarrow> pass2State" where
  "pass2 calendarDay unmatchedB unmatchedA st = foldl (pass2Step calendarDay unmatchedB) st unmatchedA"

text \<open>Step 3: the rows of the records left over.\<close>

definition inFileAOnly :: "InvoiceData \<Rightarrow> ReconciliationResult" where
  "inFileAOnly itemA =
     \<lparr>key = createKey itemA, dataA = Some itemA, dataB = None, remark = NOT_IN_B,
      matchConfidence = None, diffs = None\<rparr>"

definition inFileBOnly :: "InvoiceData \<Rightarrow> ReconciliationResult" where
  "inFileBOnly itemB =
     \<lparr>key = createKey itemB, dataA = None, dataB = Some itemB, remark = NOT_IN_A,
      matchConfidence = None, diffs = None\<rparr>"

definition reconcileFiles ::
  "(int \<Rightarrow> int) \<Rightarrow> InvoiceData list \<Rightarrow> InvoiceData list \<Rightarrow> ReconciliationResult list" where
  "reconcileFiles calendarDay fileAData fileBData =
     (case pass1 calendarDay fileAData (buildMapB fileBData) of
        (results1, mapB, unmatchedA) \<Rightarrow>
          let unmatchedB = mapValues mapB;
              unmatchedBIndexes = [0..<length unmatchedB]
          in case pass2 calendarDay unmatchedB unmatchedA (results1, unmatchedBIndexes, []) of
               (results, remainingIndexes, finalUnmatchedA) \<Rightarrow>
                 let finalUnmatchedB = map (\<lambda>i. unmatchedB ! i) remainingIndexes
                 in results @ map inFileAOnly finalUnmatchedA @ map inFileBOnly finalUnmatchedB)"

section \<open>Notions used to state the properties\<close>

text \<open>The records that the outcomes carry as \<^verbatim>\<open>dataA\<close>, and as \<^verbatim>\<open>dataB\<close>, in order.\<close>

fun recordsA :: "ReconciliationResult list \<Rightarrow> InvoiceData list" where
  "recordsA [] = []"
| "recordsA (r # rs) = (case dataA r of None \<Rightarrow> recordsA rs | Some a \<Rightarrow> a # recordsA rs)"

fun recordsB :: "ReconciliationResult list \<Rightarrow> InvoiceData list" where
  "recordsB [] = []"
| "recordsB (r # rs) = (case dataB r of None \<Rightarrow> recordsB rs | Some b \<Rightarrow> b # recordsB rs)"

definition validKey :: "InvoiceData \<Rightarrow> bool" where
  "validKey r = keyOK (createKey r)"

text \<open>
  The records of a list that have a valid key and are not followed, later in the list,
  by a record with the same key.
\<close>

fun lastOfKey :: "InvoiceData list \<Rightarrow> InvoiceData list" where
  "lastOfKey [] = []"
| "lastOfKey (b # bs) =
     (if validKey b \<and> createKey b \<notin> set (map createKey bs) then b # lastOfKey bs
      else lastOfKey bs)"

text \<open>The score of a candidate as the specification words it, and eligibility.\<close>

definition fuzzyScore :: "InvoiceData \<Rightarrow> InvoiceData \<Rightarrow> nat" where
  "fuzzyScore a b =
     2 * (if areNamesSimilar (Name a) (Name b) then 1 else 0) +
     1 * (if areValuesClose (taxableValue a) (taxableValue b) 1.0 then 1 else 0) +
     1 * (if areDatesClose (InvoiceDate a) (InvoiceDate b) 7 then 1 else 0)"

definition eligible :: "InvoiceData \<Rightarrow> InvoiceData \<Rightarrow> bool" where
  "eligible a b = (normalized (GSTIN a) = normalized (GSTIN b) \<and> 2 \<le> fuzzyScore a b)"

definition paired :: "ReconciliationResult \<Rightarrow> bool" where
  "paired r = (dataA r \<noteq> None \<and> dataB r \<noteq> None)"




text \<open>
  The records held by a state of the first loop over A and of the second: those already
  in a result together with those still waiting (in \<^verbatim>\<open>unmatchedA\<close>, in the map, in
  \<^verbatim>\<open>finalUnmatchedA\<close>, at the positions of \<^verbatim>\<open>unmatchedBIndexes\<close>).
\<close>

definition p1A :: "pass1State \<Rightarrow> InvoiceData multiset" where
  "p1A st = mset (recordsA (fst st)) + mset (snd (snd st))"

definition p1B :: "pass1State \<Rightarrow> InvoiceData multiset" where
  "p1B st = mset (recordsB (fst st)) + mset (mapValues (fst (snd st)))"

definition p2A :: "pass2State \<Rightarrow> InvoiceData multiset" where
  "p2A st = mset (recordsA (fst st)) + mset (snd (snd st))"

definition p2B :: "InvoiceData list \<Rightarrow> pass2State \<Rightarrow> InvoiceData multiset" where
  "p2B ub st = mset (recordsB (fst st)) + mset (map ((!) ub) (fst (snd st)))"

text \<open>The two kinds of outcome that carry a record of each side.\<close>

definition exactOutcome :: "(int \<Rightarrow> int) \<Rightarrow> ReconciliationResult \<Rightarrow> bool" where
  "exactOutcome cd r =
     (\<exists>a b. r = \<lparr>key = createKey a, dataA = Some a, dataB = Some b,
                 remark = (if areValuesEqual (taxableValue a) (taxableValue b)
                           then MATCH else PARTIALLY_MATCHED),
                 matchConfidence = Some High,
                 diffs = (if getDiffs cd a b = [] then None else Some (getDiffs cd a b))\<rparr>)"

definition fuzzyOutcome :: "(int \<Rightarrow> int) \<Rightarrow> ReconciliationResult \<Rightarrow> bool" where
  "fuzzyOutcome cd r =
     (\<exists>a b. eligible a b \<and>
            r = \<lparr>key = ''fuzzy-'' @ createKey a @ ''-'' @ createKey b,
                 dataA = Some a, dataB = Some b, remark = PARTIALLY_MATCHED,
                 matchConfidence = Some Low, diffs = Some (getDiffs cd a b)\<rparr>)"



section \<open>Example records\<close>

definition blankRecord :: InvoiceData where
  "blankRecord =
     \<lparr>originalRow = [], normalizedHeaders = [], GSTIN = Some [], Name = Some ''Cash sale'',
      InvoiceNo = Some '' '', InvoiceDate = DateValue (Some 1700000000000), taxableValue = 250\<rparr>"

definition acmeA :: InvoiceData where
  "acmeA =
     \<lparr>originalRow = [], normalizedHeaders = [], GSTIN = Some ''G1'',
      Name = Some ''Acme Pvt Ltd'', InvoiceNo = Some ''INV-1'',
      InvoiceDate = DateValue (Some 1700000000000), taxableValue = 1000\<rparr>"

definition zenithB :: InvoiceData where
  "zenithB =
     \<lparr>originalRow = [], normalizedHeaders = [], GSTIN = Some '' g1'',
      Name = Some ''Zenith Traders'', InvoiceNo = Some ''inv-1 '',
      InvoiceDate = DateValue (Some 1700000000000), taxableValue = 1000\<rparr>"

definition acmeB :: InvoiceData where
  "acmeB =
     \<lparr>originalRow = [], normalizedHeaders = [], GSTIN = Some ''g1'',
      Name = Some ''ACME'', InvoiceNo = Some ''INV-2'',
      InvoiceDate = DateValue (Some 1700000000000), taxableValue = 1000\<rparr>"

definition undatedA :: InvoiceData where
  "undatedA =
     \<lparr>originalRow = [], normalizedHeaders = [], GSTIN = Some ''G1'',
      Name = Some ''Acme'', InvoiceNo = Some ''INV-7'',
      InvoiceDate = DateValue None, taxableValue = 500\<rparr>"

definition undatedB :: InvoiceData where
  "undatedB =
     \<lparr>originalRow = [(''row'', ''2'')], normalizedHeaders = [], GSTIN = Some ''G1'',
      Name = Some ''Acme'', InvoiceNo = Some ''INV-7'',
      InvoiceDate = DateValue None, taxableValue = 500\<rparr>"


definition bharatB :: InvoiceData where
  "bharatB =
     \<lparr>originalRow = [], normalizedHeaders = [], GSTIN = Some ''G2'',
      Name = Some ''Bharat Steel'', InvoiceNo = Some ''BS/17'',
      InvoiceDate = DateValue (Some 1700000000000), taxableValue = 80\<rparr>"

definition bharatB2 :: InvoiceData where
  "bharatB2 =
     \<lparr>originalRow = [], normalizedHeaders = [], GSTIN = Some ''g2'',
      Name = Some ''Bharat Steel'', InvoiceNo = Some ''bs/17'',
      InvoiceDate = DateValue (Some 1700000000000), taxableValue = 95\<rparr>"







section \<open>Auxiliary facts\<close>

subsection \<open>Results\<close>

lemma recordsA_append: "recordsA (xs @ ys) = recordsA xs @ recordsA ys"
  by (induction xs) (auto split: option.splits)

lemma recordsB_append: "recordsB (xs @ ys) = recordsB xs @ recordsB ys"
  by (induction xs) (auto split: option.splits)

lemma recordsA_inFileAOnly: "recordsA (map inFileAOnly xs) = xs"
  by (induction xs) (auto simp: inFileAOnly_def)

lemma recordsA_inFileBOnly: "recordsA (map inFileBOnly xs) = []"
  by (induction xs) (auto simp: inFileBOnly_def)

lemma recordsB_inFileAOnly: "recordsB (map inFileAOnly xs) = []"
  by (induction xs) (auto simp: inFileAOnly_def)

lemma recordsB_inFileBOnly: "recordsB (map inFileBOnly xs) = xs"
  by (induction xs) (auto simp: inFileBOnly_def)

lemma foldl_invariant:
  assumes "\<And>s x. I (f s x) = I s"
  shows "I (foldl f s xs) = I s"
  using assms by (induction xs arbitrary: s) auto

subsection \<open>The map\<close>

lemma mapGet_mapDelete_mset:
  "mapGet m k = Some v \<Longrightarrow> mset (mapValues (mapDelete k m)) + {#v#} = mset (mapValues m)"
  by (induction m) (auto simp: mapValues_def split: if_splits)

lemma mapSet_update: "mapSet k v m = AList.update k v m"
  by (induction m) auto

lemma mapSet_keys: "fst ` set (mapSet k v m) = insert k (fst ` set m)"
  by (simp add: mapSet_update dom_update)

lemma mapSet_distinct: "distinct (map fst m) \<Longrightarrow> distinct (map fst (mapSet k v m))"
  by (simp add: mapSet_update distinct_update)

lemma mapGet_mapSet: "mapGet (mapSet k v m) k' = (if k' = k then Some v else mapGet m k')"
  by (induction m) auto

lemma mapSet_values_subset: "mset (mapValues (mapSet k v m)) \<subseteq># mset (mapValues m) + {#v#}"
  by (induction m) (auto simp: mapValues_def intro: subset_mset.order_trans)



subsection \<open>The exact pass\<close>

lemma pass1Step_B: "p1B (pass1Step cd st a) = p1B st"
proof (cases st)
  case (fields rs m ua)
  show ?thesis
  proof (cases "mapGet m (createKey a)")
    case None
    then show ?thesis by (simp add: fields p1B_def Let_def)
  next
    case (Some b)
    from mapGet_mapDelete_mset[OF Some] show ?thesis
      by (simp add: fields Some p1B_def Let_def recordsB_append)
  qed
qed

lemma pass1Step_A:
  "p1A (pass1Step cd st a) = p1A st + (if validKey a then {#a#} else {#})"
  by (cases st) (simp add: p1A_def Let_def validKey_def recordsA_append split: option.splits)

lemma pass1_B: "p1B (foldl (pass1Step cd) st A) = p1B st"
  by (rule foldl_invariant) (rule pass1Step_B)

lemma pass1_A: "p1A (foldl (pass1Step cd) st A) = p1A st + mset (filter validKey A)"
  by (induction A arbitrary: st) (simp_all add: pass1Step_A)

subsection \<open>The scan of the candidates\<close>

lemma scanStep_alt:
  "scanStep a ub bm i =
     (if eligible a (ub ! i)
      then (case bm of
              None \<Rightarrow> Some \<lparr>item = ub ! i, index = i, score = fuzzyScore a (ub ! i)\<rparr>
            | Some best \<Rightarrow>
                if score best < fuzzyScore a (ub ! i)
                then Some \<lparr>item = ub ! i, index = i, score = fuzzyScore a (ub ! i)\<rparr>
                else bm)
      else bm)"
  by (auto simp: scanStep_def eligible_def fuzzyScore_def Let_def split: option.splits)

lemma findBestMatch_snoc:
  "findBestMatch a ub (xs @ [x]) = scanStep a ub (findBestMatch a ub xs) x"
  by (simp add: findBestMatch_def)

lemma findBestMatch_None:
  "findBestMatch a ub idxs = None \<longleftrightarrow> (\<forall>i\<in>set idxs. \<not> eligible a (ub ! i))"
proof (induction idxs rule: rev_induct)
  case Nil
  show ?case by (simp add: findBestMatch_def)
next
  case (snoc x xs)
  then show ?case
    by (auto simp: findBestMatch_snoc scanStep_alt split: option.splits)
qed

lemma findBestMatch_Some:
  assumes "findBestMatch a ub idxs = Some best"
  shows "\<exists>pre post. idxs = pre @ index best # post
           \<and> item best = ub ! index best
           \<and> score best = fuzzyScore a (item best)
           \<and> eligible a (item best)
           \<and> (\<forall>j\<in>set pre. eligible a (ub ! j) \<longrightarrow> fuzzyScore a (ub ! j) < score best)
           \<and> (\<forall>j\<in>set post. eligible a (ub ! j) \<longrightarrow> fuzzyScore a (ub ! j) \<le> score best)"
  using assms
proof (induction idxs arbitrary: best rule: rev_induct)
  case Nil
  then show ?case by (simp add: findBestMatch_def)
next
  case (snoc x xs)
  let ?new = "\<lparr>item = ub ! x, index = x, score = fuzzyScore a (ub ! x)\<rparr>"
  have step: "scanStep a ub (findBestMatch a ub xs) x = Some best"
    using snoc.prems by (simp add: findBestMatch_snoc)
  show ?case
  proof (cases "eligible a (ub ! x)")
    case False
    then have "findBestMatch a ub xs = Some best"
      using step by (simp add: scanStep_alt)
    from snoc.IH[OF this] obtain pre post where
      *: "xs = pre @ index best # post" "item best = ub ! index best"
         "score best = fuzzyScore a (item best)" "eligible a (item best)"
         "\<forall>j\<in>set pre. eligible a (ub ! j) \<longrightarrow> fuzzyScore a (ub ! j) < score best"
         "\<forall>j\<in>set post. eligible a (ub ! j) \<longrightarrow> fuzzyScore a (ub ! j) \<le> score best"
      by blast
    have "xs @ [x] = pre @ index best # (post @ [x])" using *(1) by simp
    moreover have "\<forall>j\<in>set (post @ [x]). eligible a (ub ! j) \<longrightarrow> fuzzyScore a (ub ! j) \<le> score best"
      using *(6) False by simp
    ultimately show ?thesis using *(2-5) by blast
  next
    case True
    show ?thesis
    proof (cases "findBestMatch a ub xs")
      case None
      then have best: "best = ?new" using step True by (simp add: scanStep_alt)
      have none: "\<forall>i\<in>set xs. \<not> eligible a (ub ! i)"
        using None by (simp add: findBestMatch_None)
      have "xs @ [x] = xs @ index best # []" by (simp add: best)
      moreover have "\<forall>j\<in>set xs. eligible a (ub ! j) \<longrightarrow> fuzzyScore a (ub ! j) < score best"
        using none by simp
      moreover have "item best = ub ! index best" "score best = fuzzyScore a (item best)"
        "eligible a (item best)" using True by (simp_all add: best)
      ultimately show ?thesis by (metis empty_iff list.set(1))
    next
      case (Some old)
      from snoc.IH[OF Some] obtain pre post where
        *: "xs = pre @ index old # post" "item old = ub ! index old"
           "score old = fuzzyScore a (item old)" "eligible a (item old)"
           "\<forall>j\<in>set pre. eligible a (ub ! j) \<longrightarrow> fuzzyScore a (ub ! j) < score old"
           "\<forall>j\<in>set post. eligible a (ub ! j) \<longrightarrow> fuzzyScore a (ub ! j) \<le> score old"
        by blast
      show ?thesis
      proof (cases "score old < fuzzyScore a (ub ! x)")
        case better: True
        then have best: "best = ?new" using step True Some by (simp add: scanStep_alt)
        have "xs @ [x] = xs @ index best # []" by (simp add: best)
        moreover have "\<forall>j\<in>set xs. eligible a (ub ! j) \<longrightarrow> fuzzyScore a (ub ! j) < score best"
        proof (intro ballI impI)
          fix j assume j: "j \<in> set xs" and e: "eligible a (ub ! j)"
          from j *(1) consider "j \<in> set pre" | "j = index old" | "j \<in> set post" by auto
          then have "fuzzyScore a (ub ! j) \<le> score old"
          proof cases
            case 1 then show ?thesis using *(5) e by (simp add: less_imp_le)
          next
            case 2 then show ?thesis using *(2,3) by simp
          next
            case 3 then show ?thesis using *(6) e by simp
          qed
          then show "fuzzyScore a (ub ! j) < score best" using better by (simp add: best)
        qed
        moreover have "item best = ub ! index best" "score best = fuzzyScore a (item best)"
          "eligible a (item best)" using True by (simp_all add: best)
        ultimately show ?thesis by (metis empty_iff list.set(1))
      next
        case False
        then have best: "best = old" using step True Some by (simp add: scanStep_alt)
        have "xs @ [x] = pre @ index best # (post @ [x])" using *(1) best by simp
        moreover have "\<forall>j\<in>set (post @ [x]). eligible a (ub ! j) \<longrightarrow> fuzzyScore a (ub ! j) \<le> score best"
          using *(6) False best by auto
        ultimately show ?thesis using *(2-5) best by blast
      qed
    qed
  qed
qed

lemma findBestMatch_index:
  assumes "findBestMatch a ub idxs = Some best"
  shows "index best \<in> set idxs" "item best = ub ! index best" "eligible a (item best)"
  using findBestMatch_Some[OF assms] by auto

subsection \<open>The fuzzy pass\<close>

lemma removeAll_map_mset:
  "distinct xs \<Longrightarrow> i \<in> set xs \<Longrightarrow> mset (map f (removeAll i xs)) + {#f i#} = mset (map f xs)"
  by (induction xs) auto

lemma pass2Step_A: "p2A (pass2Step cd ub st a) = p2A st + {#a#}"
  by (cases st) (simp add: p2A_def Let_def recordsA_append split: option.splits)

lemma pass2Step_B:
  assumes "distinct (fst (snd st))"
  shows "p2B ub (pass2Step cd ub st a) = p2B ub st"
proof (cases st)
  case (fields rs idxs fua)
  show ?thesis
  proof (cases "findBestMatch a ub idxs")
    case None
    then show ?thesis by (simp add: fields p2B_def)
  next
    case (Some best)
    have d: "distinct idxs" using assms fields by simp
    from removeAll_map_mset[OF d findBestMatch_index(1)[OF Some], of "(!) ub"]
    show ?thesis
      by (simp add: fields Some p2B_def Let_def recordsB_append findBestMatch_index(2)[OF Some])
  qed
qed

lemma subseq_distinct: "subseq xs ys \<Longrightarrow> distinct ys \<Longrightarrow> distinct xs"
  using subseqs_distinctD[of xs ys] by simp

lemma pass2Step_subseq: "subseq (fst (snd (pass2Step cd ub st a))) (fst (snd st))"
  by (cases st) (auto simp: Let_def removeAll_filter_not_eq split: option.splits)


lemma pass2_A: "p2A (pass2 cd ub ua st) = p2A st + mset ua"
  unfolding pass2_def by (induction ua arbitrary: st) (simp_all add: pass2Step_A)

lemma pass2_B:
  "distinct (fst (snd st)) \<Longrightarrow> p2B ub (pass2 cd ub ua st) = p2B ub st"
  unfolding pass2_def
proof (induction ua arbitrary: st)
  case Nil
  show ?case by simp
next
  case (Cons a ua)
  have "distinct (fst (snd (pass2Step cd ub st a)))"
    using pass2Step_subseq[of cd ub st a] Cons.prems subseq_distinct by blast
  from Cons.IH[OF this] show ?case by (simp add: pass2Step_B[OF Cons.prems])
qed

subsection \<open>The lookup of the records of B\<close>

lemma addToMapB_distinct:
  "distinct (map fst m) \<Longrightarrow> distinct (map fst (addToMapB m b))"
  by (simp add: addToMapB_def Let_def mapSet_distinct)

lemma addToMapB_subset: "mset (mapValues (addToMapB m b)) \<subseteq># mset (mapValues m) + {#b#}"
  using mapSet_values_subset[of "createKey b" b m]
  by (simp add: addToMapB_def Let_def)

lemma foldl_addToMapB_subset:
  "mset (mapValues (foldl addToMapB m bs)) \<subseteq># mset (mapValues m) + mset bs"
proof (induction bs arbitrary: m)
  case Nil
  show ?case by simp
next
  case (Cons b bs)
  have "mset (mapValues (foldl addToMapB (addToMapB m b) bs))
          \<subseteq># mset (mapValues (addToMapB m b)) + mset bs" by (rule Cons.IH)
  also have "\<dots> \<subseteq># (mset (mapValues m) + {#b#}) + mset bs"
    using addToMapB_subset[of m b] by (simp add: subset_mset.add_right_mono)
  finally show ?case by (simp add: ac_simps)
qed

lemma filter_fresh_key:
  "k \<notin> fst ` set m \<Longrightarrow> filter (\<lambda>p. fst p \<notin> insert k K) m = filter (\<lambda>p. fst p \<notin> K) m"
  by (rule filter_cong) auto

lemma mapSet_filter_values:
  "distinct (map fst m) \<Longrightarrow>
   mset (mapValues (filter (\<lambda>p. fst p \<notin> K) (mapSet k v m))) =
   mset (mapValues (filter (\<lambda>p. fst p \<notin> insert k K) m)) + (if k \<in> K then {#} else {#v#})"
proof (induction m)
  case Nil
  show ?case by (simp add: mapValues_def)
next
  case (Cons p m)
  obtain k' v' where p: "p = (k', v')" by (cases p)
  show ?case
  proof (cases "k' = k")
    case True
    then have "k \<notin> fst ` set m" using Cons.prems p by (simp add: image_iff)
    from filter_fresh_key[OF this, of K] show ?thesis
      using True p by (simp add: mapValues_def)
  next
    case False
    then show ?thesis using Cons p by (simp add: mapValues_def)
  qed
qed

lemma validKey_cong: "createKey b = createKey b' \<Longrightarrow> validKey b = validKey b'"
  by (simp add: validKey_def)

lemma key_in_valid:
  "validKey b \<Longrightarrow>
   (createKey b \<in> createKey ` set (filter validKey bs)) = (createKey b \<in> createKey ` set bs)"
proof
  assume "createKey b \<in> createKey ` set (filter validKey bs)"
  then show "createKey b \<in> createKey ` set bs" by auto
next
  assume v: "validKey b" and "createKey b \<in> createKey ` set bs"
  then obtain b' where b': "b' \<in> set bs" "createKey b = createKey b'" by blast
  then have "validKey b'" using v validKey_cong by blast
  then show "createKey b \<in> createKey ` set (filter validKey bs)" using b' by simp
qed

lemma foldl_addToMapB_values:
  "distinct (map fst m) \<Longrightarrow>
   mset (mapValues (foldl addToMapB m bs)) =
   mset (mapValues (filter (\<lambda>p. fst p \<notin> createKey ` set (filter validKey bs)) m)) +
   mset (lastOfKey bs)"
proof (induction bs arbitrary: m)
  case Nil
  show ?case by simp
next
  case (Cons b bs)
  show ?case
  proof (cases "validKey b")
    case False
    then have "addToMapB m b = m" by (simp add: addToMapB_def validKey_def)
    then show ?thesis using Cons.IH[OF Cons.prems] False by simp
  next
    case True
    then have m': "addToMapB m b = mapSet (createKey b) b m"
      by (simp add: addToMapB_def validKey_def)
    have "distinct (map fst (mapSet (createKey b) b m))"
      using Cons.prems by (rule mapSet_distinct)
    from Cons.IH[OF this]
    show ?thesis
      using True key_in_valid[OF True, of bs]
      by (simp add: m' mapSet_filter_values[OF Cons.prems])
  qed
qed

lemma buildMapB_values: "mset (mapValues (buildMapB B)) = mset (lastOfKey B)"
  using foldl_addToMapB_values[of "[]" B] by (simp add: buildMapB_def mapValues_def)

lemma buildMapB_subset: "mset (mapValues (buildMapB B)) \<subseteq># mset B"
  using foldl_addToMapB_subset[of "[]" B] by (simp add: buildMapB_def mapValues_def)



lemma foldl_addToMapB_other:
  "k \<notin> createKey ` set bs \<Longrightarrow> mapGet (foldl addToMapB m bs) k = mapGet m k"
  by (induction bs arbitrary: m) (auto simp: addToMapB_def Let_def mapGet_mapSet)

lemma foldl_addToMapB_last:
  "validKey b \<Longrightarrow> mapGet (foldl addToMapB m (bs @ [b])) (createKey b) = Some b"
  by (simp add: addToMapB_def validKey_def mapGet_mapSet)

lemma lastOfKey_append_subset: "mset (lastOfKey (xs @ ys)) \<subseteq># mset xs + mset (lastOfKey ys)"
  by (induction xs) (auto intro: subset_mset.order_trans)

lemma lastOfKey_subset: "mset (lastOfKey ys) \<subseteq># mset ys"
  using lastOfKey_append_subset[of ys "[]"] by simp

lemma overwritten_lost:
  assumes "i < j" and "j < length B" and "createKey (B ! i) = createKey (B ! j)"
  shows "mset (lastOfKey B) \<subseteq># mset (take i B) + mset (drop (Suc i) B)"
proof -
  have B: "take i B @ B ! i # drop (Suc i) B = B"
    using id_take_nth_drop[of i B] assms by simp
  have "drop (Suc i) B ! (j - Suc i) = B ! j" "j - Suc i < length (drop (Suc i) B)"
    using assms by simp_all
  then have "B ! j \<in> set (drop (Suc i) B)" by (metis nth_mem)
  then have "createKey (B ! i) \<in> set (map createKey (drop (Suc i) B))"
    using assms(3) by simp
  then have "lastOfKey (B ! i # drop (Suc i) B) = lastOfKey (drop (Suc i) B)" by simp
  then have "mset (lastOfKey B) \<subseteq># mset (take i B) + mset (lastOfKey (drop (Suc i) B))"
    using lastOfKey_append_subset[of "take i B" "B ! i # drop (Suc i) B"] by (simp add: B)
  also have "\<dots> \<subseteq># mset (take i B) + mset (drop (Suc i) B)"
    using lastOfKey_subset[of "drop (Suc i) B"] by simp
  finally show ?thesis .
qed

lemma mset_without_nth:
  "i < length B \<Longrightarrow> mset B - {#B ! i#} = mset (take i B) + mset (drop (Suc i) B)"
proof -
  assume "i < length B"
  then have "mset B = mset (take i B @ B ! i # drop (Suc i) B)"
    using id_take_nth_drop[of i B] by simp
  then show ?thesis by simp
qed

subsection \<open>The shape of the outcomes\<close>

lemma foldl_preserve:
  assumes "P s" and "\<And>s x. P s \<Longrightarrow> P (f s x)"
  shows "P (foldl f s xs)"
  using assms by (induction xs arbitrary: s) auto

lemma pass1Step_shape:
  assumes "\<forall>r\<in>set (fst st). exactOutcome cd r"
  shows "\<forall>r\<in>set (fst (pass1Step cd st a)). exactOutcome cd r"
proof (cases st)
  case (fields rs m ua)
  show ?thesis
  proof (cases "mapGet m (createKey a)")
    case None
    then show ?thesis using assms by (simp add: fields Let_def)
  next
    case (Some b)
    have "exactOutcome cd
            \<lparr>key = createKey a, dataA = Some a, dataB = Some b,
              remark = (if areValuesEqual (taxableValue a) (taxableValue b)
                        then MATCH else PARTIALLY_MATCHED),
              matchConfidence = Some High,
              diffs = (if 0 < length (getDiffs cd a b) then Some (getDiffs cd a b) else None)\<rparr>"
      unfolding exactOutcome_def by (intro exI[of _ a] exI[of _ b]) simp
    then show ?thesis using assms by (simp add: fields Some Let_def)
  qed
qed

lemma pass1_shape: "\<forall>r\<in>set (fst (pass1 cd A m)). exactOutcome cd r"
  unfolding pass1_def
  by (rule foldl_preserve[where P = "\<lambda>st. \<forall>r\<in>set (fst st). exactOutcome cd r"])
     (simp, rule pass1Step_shape)

lemma pass2Step_shape:
  assumes "\<forall>r\<in>set (fst st). exactOutcome cd r \<or> fuzzyOutcome cd r"
  shows "\<forall>r\<in>set (fst (pass2Step cd ub st a)). exactOutcome cd r \<or> fuzzyOutcome cd r"
proof (cases st)
  case (fields rs idxs fua)
  show ?thesis
  proof (cases "findBestMatch a ub idxs")
    case None
    then show ?thesis using assms by (simp add: fields)
  next
    case (Some best)
    have "fuzzyOutcome cd
            \<lparr>key = ''fuzzy-'' @ createKey a @ ''-'' @ createKey (item best),
              dataA = Some a, dataB = Some (item best), remark = PARTIALLY_MATCHED,
              matchConfidence = Some Low, diffs = Some (getDiffs cd a (item best))\<rparr>"
      unfolding fuzzyOutcome_def
      using findBestMatch_index(3)[OF Some] by (intro exI[of _ a] exI[of _ "item best"]) simp
    then show ?thesis using assms by (simp add: fields Some Let_def)
  qed
qed

lemma pass2_shape:
  assumes "\<forall>r\<in>set (fst st). exactOutcome cd r \<or> fuzzyOutcome cd r"
  shows "\<forall>r\<in>set (fst (pass2 cd ub ua st)). exactOutcome cd r \<or> fuzzyOutcome cd r"
  unfolding pass2_def
  by (rule foldl_preserve[where P = "\<lambda>st. \<forall>r\<in>set (fst st). exactOutcome cd r \<or> fuzzyOutcome cd r"])
     (rule assms, rule pass2Step_shape)

lemma reconcileFiles_unfold:
  assumes "pass1 cd A (buildMapB B) = (rs1, m, ua)"
    and "pass2 cd (mapValues m) ua (rs1, [0..<length (mapValues m)], []) = (rs, idxs, fua)"
  shows "reconcileFiles cd A B =
           rs @ map inFileAOnly fua @ map inFileBOnly (map ((!) (mapValues m)) idxs)"
  using assms by (simp add: reconcileFiles_def Let_def)

lemma reconcile_shape:
  assumes "r \<in> set (reconcileFiles cd A B)"
  shows "exactOutcome cd r \<or> fuzzyOutcome cd r \<or> (\<exists>a. r = inFileAOnly a) \<or> (\<exists>b. r = inFileBOnly b)"
proof -
  obtain rs1 m ua where p1: "pass1 cd A (buildMapB B) = (rs1, m, ua)"
    by (cases "pass1 cd A (buildMapB B)")
  obtain rs idxs fua where
    p2: "pass2 cd (mapValues m) ua (rs1, [0..<length (mapValues m)], []) = (rs, idxs, fua)"
    by (cases "pass2 cd (mapValues m) ua (rs1, [0..<length (mapValues m)], [])")
  have "\<forall>r\<in>set rs1. exactOutcome cd r"
    using pass1_shape[of cd A "buildMapB B"] by (simp add: p1)
  then have "\<forall>r\<in>set rs. exactOutcome cd r \<or> fuzzyOutcome cd r"
    using pass2_shape[of "(rs1, [0..<length (mapValues m)], [])" cd "mapValues m" ua]
    by (simp add: p2)
  then show ?thesis
    using assms unfolding reconcileFiles_unfold[OF p1 p2] by auto
qed

lemma reconcile_recordsA: "mset (recordsA (reconcileFiles cd A B)) = mset (filter validKey A)"
proof -
  obtain rs1 m ua where p1: "pass1 cd A (buildMapB B) = (rs1, m, ua)"
    by (cases "pass1 cd A (buildMapB B)")
  obtain rs idxs fua where
    p2: "pass2 cd (mapValues m) ua (rs1, [0..<length (mapValues m)], []) = (rs, idxs, fua)"
    by (cases "pass2 cd (mapValues m) ua (rs1, [0..<length (mapValues m)], [])")
  have 1: "mset (recordsA rs1) + mset ua = mset (filter validKey A)"
    using pass1_A[of cd "([], buildMapB B, [])" A] by (simp add: p1A_def pass1_def[symmetric] p1)
  have 2: "mset (recordsA rs) + mset fua = mset (recordsA rs1) + mset ua"
    using pass2_A[of cd "mapValues m" ua "(rs1, [0..<length (mapValues m)], [])"]
    by (simp add: p2A_def p2)
  show ?thesis
    unfolding reconcileFiles_unfold[OF p1 p2]
    using 1 2
    by (simp add: recordsA_append recordsA_inFileAOnly recordsA_inFileBOnly del: map_map)
qed

lemma reconcile_recordsB:
  "mset (recordsB (reconcileFiles cd A B)) = mset (mapValues (buildMapB B))"
proof -
  obtain rs1 m ua where p1: "pass1 cd A (buildMapB B) = (rs1, m, ua)"
    by (cases "pass1 cd A (buildMapB B)")
  obtain rs idxs fua where
    p2: "pass2 cd (mapValues m) ua (rs1, [0..<length (mapValues m)], []) = (rs, idxs, fua)"
    by (cases "pass2 cd (mapValues m) ua (rs1, [0..<length (mapValues m)], [])")
  have 1: "mset (recordsB rs1) + mset (mapValues m) = mset (mapValues (buildMapB B))"
    using pass1_B[of cd "([], buildMapB B, [])" A] by (simp add: p1B_def pass1_def[symmetric] p1)
  have 2: "mset (recordsB rs) + mset (map ((!) (mapValues m)) idxs)
             = mset (recordsB rs1) + mset (map ((!) (mapValues m)) [0..<length (mapValues m)])"
    using pass2_B[of "(rs1, [0..<length (mapValues m)], [])" "mapValues m" cd ua]
    by (simp add: p2B_def p2)
  have 3: "map ((!) (mapValues m)) [0..<length (mapValues m)] = mapValues m"
    by (rule map_nth)
  show ?thesis
    unfolding reconcileFiles_unfold[OF p1 p2]
    using 1 2 3
    by (simp add: recordsB_append recordsB_inFileAOnly recordsB_inFileBOnly del: map_map)
qed

lemma recordsA_split:
  "mset (recordsA rs) =
     mset (recordsA (filter paired rs)) + mset (recordsA (filter (\<lambda>r. dataB r = None) rs))"
  by (induction rs) (auto simp: paired_def split: option.splits)

lemma recordsB_split:
  "mset (recordsB rs) =
     mset (recordsB (filter paired rs)) + mset (recordsB (filter (\<lambda>r. dataA r = None) rs))"
  by (induction rs) (auto simp: paired_def split: option.splits)

lemma exactOutcome_fields:
  assumes "exactOutcome cd r" and "dataA r = Some a" and "dataB r = Some b"
  shows "matchConfidence r = Some High"
    and "remark r = (if areValuesEqual (taxableValue a) (taxableValue b) then MATCH else PARTIALLY_MATCHED)"
    and "diffs r = (if getDiffs cd a b = [] then None else Some (getDiffs cd a b))"
  using assms unfolding exactOutcome_def by auto

lemma fuzzyOutcome_fields:
  assumes "fuzzyOutcome cd r" and "dataA r = Some a" and "dataB r = Some b"
  shows "matchConfidence r = Some Low" and "remark r = PARTIALLY_MATCHED"
    and "diffs r = Some (getDiffs cd a b)" and "eligible a b"
  using assms unfolding fuzzyOutcome_def by auto

lemma taxable_in_diffs:
  "''taxable value'' \<in> set (getDiffs cd a b) \<longleftrightarrow> \<not> areValuesEqual (taxableValue a) (taxableValue b)"
  by (simp add: getDiffs_def Let_def)

subsection \<open>The order of the scan\<close>




subsection \<open>The steps of the fuzzy pass inside the engine\<close>









declare pass2Step.simps [simp del]







section \<open>Evaluations\<close>

lemma blankRecord_invalid: "\<not> validKey blankRecord"
  by code_simp

lemma reconcile_blank: "reconcileFiles utcDay [blankRecord] [blankRecord] = []"
  by code_simp

lemma reconcile_acme_zenith:
  "reconcileFiles utcDay [acmeA] [zenithB] =
     [\<lparr>key = ''G1-INV-1'', dataA = Some acmeA, dataB = Some zenithB, remark = MATCH,
       matchConfidence = Some High, diffs = Some [''Name'']\<rparr>]"
  by code_simp

lemma reconcile_acme_acme:
  "reconcileFiles utcDay [acmeA] [acmeB] =
     [\<lparr>key = ''fuzzy-G1-INV-1-G1-INV-2'', dataA = Some acmeA, dataB = Some acmeB,
       remark = PARTIALLY_MATCHED, matchConfidence = Some Low, diffs = Some [''Invoice no.'']\<rparr>]"
  by code_simp

lemma valid_examples: "filter validKey [acmeA, blankRecord] = [acmeA]" "lastOfKey [zenithB, blankRecord] = [zenithB]"
  by code_simp+

lemma pass1_blank: "pass1 utcDay [blankRecord] (buildMapB []) = ([], [], [])"
  by code_simp

lemma reconcile_blank_alone: "reconcileFiles utcDay [blankRecord] [] = []"
  by code_simp




lemma reconcile_leftovers:
  "reconcileFiles utcDay [acmeA, blankRecord] [bharatB] = [inFileAOnly acmeA, inFileBOnly bharatB]"
  by code_simp

lemma leftovers_valid: "lastOfKey [bharatB] = [bharatB]"
  by code_simp

lemma reconcile_blank_bharat: "reconcileFiles utcDay [blankRecord] [bharatB] = [inFileBOnly bharatB]"
  by code_simp

lemma blank_not_bharat: "blankRecord \<noteq> bharatB"
  by code_simp

lemma duplicate_examples:
  "createKey bharatB = createKey bharatB2" "validKey bharatB2" "distinct [bharatB, bharatB2]"
  by code_simp+






section \<open>The claims\<close>

text \<open>
  C10. The name-similarity predicate is false whenever a name is missing or empty, or
  is empty once lower-cased and stripped of white space and punctuation; so a blank name
  is similar to no name, although the empty string occurs in every string.
\<close>

theorem areNamesSimilar_blank:
  assumes "nameA = None \<or> nameA = Some [] \<or> nameB = None \<or> nameB = Some []
           \<or> (\<exists>a. nameA = Some a \<and> simplify a = [])
           \<or> (\<exists>b. nameB = Some b \<and> simplify b = [])"
  shows "\<not> areNamesSimilar nameA nameB"
proof (cases nameA)
  case None
  then show ?thesis by simp
next
  case a: (Some a)
  show ?thesis
  proof (cases nameB)
    case None
    then show ?thesis using a by simp
  next
    case b: (Some b)
    have "a = [] \<or> b = [] \<or> simplify a = [] \<or> simplify b = []"
      using assms a b by auto
    then show ?thesis using a b by (auto simp: Let_def)
  qed
qed

theorem areNamesSimilar_blank_witness:
  "simplify '' . - '' = [] \<and> includesStr (simplify ''Acme Co.'') (simplify '' . - '')
   \<and> \<not> areNamesSimilar (Some '' . - '') (Some ''Acme Co.'')
   \<and> \<not> areNamesSimilar (Some ''Acme Co.'') None
   \<and> \<not> areNamesSimilar (Some []) (Some ''Acme Co.'')"
proof -
  have s: "simplify '' . - '' = []" by code_simp
  have i: "includesStr (simplify ''Acme Co.'') (simplify '' . - '')" by code_simp
  show ?thesis
    using s i areNamesSimilar_blank[of "Some '' . - ''" "Some ''Acme Co.''"]
      areNamesSimilar_blank[of "Some ''Acme Co.''" None]
      areNamesSimilar_blank[of "Some []" "Some ''Acme Co.''"]
    by blast
qed

text \<open>
  C7. Two records whose invoice dates are both unparseable (here the empty cell) and that
  agree on every other field: the field-diff computation returns no field at all, so
  \<^verbatim>\<open>Invoice date\<close> is not in the diff set.
\<close>

theorem getDiffs_unparseable_dates: "getDiffs utcDay undatedA undatedB = []"
  by code_simp

text \<open>
  C6. No record is used twice: the records carried as \<^verbatim>\<open>dataA\<close> by the outcomes form a
  sub-multiset of A, and those carried as \<^verbatim>\<open>dataB\<close> a sub-multiset of B.
\<close>

theorem no_record_used_twice:
  "mset (recordsA (reconcileFiles cd A B)) \<subseteq># mset A
   \<and> mset (recordsB (reconcileFiles cd A B)) \<subseteq># mset B"
  by (simp add: reconcile_recordsA reconcile_recordsB buildMapB_subset)

theorem no_record_used_twice_witness:
  "mset (recordsA (reconcileFiles utcDay [acmeA] [acmeB])) \<subseteq># mset [acmeA]
   \<and> mset (recordsB (reconcileFiles utcDay [acmeA] [acmeB])) \<subseteq># mset [acmeB]"
  by (rule no_record_used_twice)

text \<open>
  C1, as the code has it. The records carried as \<^verbatim>\<open>dataA\<close> are, each exactly once, the
  records of A that have a valid key; the records carried as \<^verbatim>\<open>dataB\<close> are, each exactly
  once, the records of B that have a valid key and are not followed in B by a record with
  the same key. A record with an invalid key appears in no outcome.
\<close>

theorem coverage_of_valid_keys:
  "mset (recordsA (reconcileFiles cd A B)) = mset (filter validKey A)
   \<and> mset (recordsB (reconcileFiles cd A B)) = mset (lastOfKey B)"
  by (simp add: reconcile_recordsA reconcile_recordsB buildMapB_values)

theorem coverage_of_valid_keys_witness:
  "mset (recordsA (reconcileFiles utcDay [acmeA, blankRecord] [zenithB, blankRecord])) = mset [acmeA]
   \<and> mset (recordsB (reconcileFiles utcDay [acmeA, blankRecord] [zenithB, blankRecord])) = mset [zenithB]"
  using coverage_of_valid_keys[of utcDay "[acmeA, blankRecord]" "[zenithB, blankRecord]"]
  by (simp only: valid_examples)

text \<open>
  C1, as stated, fails: a record of A with an invalid key is carried by no outcome, and
  neither is such a record of B.
\<close>

theorem coverage_counterexample:
  "mset (recordsA (reconcileFiles utcDay [blankRecord] [blankRecord])) \<noteq> mset [blankRecord]
   \<and> mset (recordsB (reconcileFiles utcDay [blankRecord] [blankRecord])) \<noteq> mset [blankRecord]"
  by (simp add: reconcile_blank)

text \<open>
  C2, as the code has it. In Pass 1 an A record whose key is invalid is skipped: the
  step leaves the results, the lookup and the unmatched-A pool as they are, and every record
  that an outcome carries as \<^verbatim>\<open>dataA\<close> has a valid key.
\<close>

theorem invalid_key_skipped:
  "(\<not> validKey a \<longrightarrow> pass1Step cd st a = st)
   \<and> (\<forall>x\<in>set (recordsA (reconcileFiles cd A B)). validKey x)"
proof
  show "\<not> validKey a \<longrightarrow> pass1Step cd st a = st"
    by (cases st) (simp add: validKey_def)
  have "set (recordsA (reconcileFiles cd A B)) = set (filter validKey A)"
    using reconcile_recordsA[of cd A B] by (rule mset_eq_setD)
  then show "\<forall>x\<in>set (recordsA (reconcileFiles cd A B)). validKey x" by simp
qed

theorem invalid_key_skipped_witness:
  "\<not> validKey blankRecord
   \<and> pass1Step utcDay ([], [], [acmeA]) blankRecord = ([], [], [acmeA])
   \<and> set (recordsA (reconcileFiles utcDay [acmeA] [zenithB])) = {acmeA} \<and> validKey acmeA"
  using invalid_key_skipped[of blankRecord utcDay "([], [], [acmeA])" "[acmeA]" "[zenithB]"]
    blankRecord_invalid
  by (simp add: reconcile_acme_zenith)

text \<open>
  C2, as stated, fails: after Pass 1 over an A record with the key \<^verbatim>\<open>-\<close> the unmatched-A
  pool is empty, and the record is in no outcome.
\<close>

theorem invalid_key_deferred_counterexample:
  "\<not> validKey blankRecord
   \<and> snd (snd (pass1 utcDay [blankRecord] (buildMapB []))) = []
   \<and> reconcileFiles utcDay [blankRecord] [] = []"
  by (simp add: blankRecord_invalid pass1_blank reconcile_blank_alone)

text \<open>
  C3, as the code has it. An outcome with both records has confidence High or Low. With
  High, the remark is \<^verbatim>\<open>Match\<close> when the taxable values are equal within 0.001 and
  \<^verbatim>\<open>Partially Matched\<close> otherwise, whatever the other fields; so High with an empty diff
  set is \<^verbatim>\<open>Match\<close>, and High is \<^verbatim>\<open>Partially Matched\<close> exactly when \<^verbatim>\<open>taxable value\<close> is in
  the diff set. With Low the remark is \<^verbatim>\<open>Partially Matched\<close>.
\<close>

theorem remark_of_pair:
  "\<forall>r\<in>set (reconcileFiles cd A B). \<forall>a b. dataA r = Some a \<and> dataB r = Some b \<longrightarrow>
     (matchConfidence r = Some High \<or> matchConfidence r = Some Low)
     \<and> (matchConfidence r = Some High \<longrightarrow>
          remark r = (if areValuesEqual (taxableValue a) (taxableValue b)
                      then MATCH else PARTIALLY_MATCHED)
          \<and> diffs r = (if getDiffs cd a b = [] then None else Some (getDiffs cd a b))
          \<and> (getDiffs cd a b = [] \<longrightarrow> remark r = MATCH)
          \<and> (remark r = PARTIALLY_MATCHED \<longleftrightarrow> ''taxable value'' \<in> set (getDiffs cd a b)))
     \<and> (matchConfidence r = Some Low \<longrightarrow>
          remark r = PARTIALLY_MATCHED \<and> diffs r = Some (getDiffs cd a b))"
proof (intro ballI allI impI)
  fix r a b
  assume r: "r \<in> set (reconcileFiles cd A B)" and ab: "dataA r = Some a \<and> dataB r = Some b"
  from reconcile_shape[OF r] consider
    (exact) "exactOutcome cd r" | (fuzzy) "fuzzyOutcome cd r"
    | (onlyA) "\<exists>a. r = inFileAOnly a" | (onlyB) "\<exists>b. r = inFileBOnly b" by blast
  then show "(matchConfidence r = Some High \<or> matchConfidence r = Some Low)
     \<and> (matchConfidence r = Some High \<longrightarrow>
          remark r = (if areValuesEqual (taxableValue a) (taxableValue b)
                      then MATCH else PARTIALLY_MATCHED)
          \<and> diffs r = (if getDiffs cd a b = [] then None else Some (getDiffs cd a b))
          \<and> (getDiffs cd a b = [] \<longrightarrow> remark r = MATCH)
          \<and> (remark r = PARTIALLY_MATCHED \<longleftrightarrow> ''taxable value'' \<in> set (getDiffs cd a b)))
     \<and> (matchConfidence r = Some Low \<longrightarrow>
          remark r = PARTIALLY_MATCHED \<and> diffs r = Some (getDiffs cd a b))"
  proof cases
    case exact
    have e: "getDiffs cd a b = [] \<Longrightarrow> areValuesEqual (taxableValue a) (taxableValue b)"
      using taxable_in_diffs[of cd a b] by auto
    show ?thesis
      using exactOutcome_fields[OF exact] ab e taxable_in_diffs[of cd a b] by simp
  next
    case fuzzy
    show ?thesis using fuzzyOutcome_fields[OF fuzzy] ab by simp
  next
    case onlyA
    then show ?thesis using ab by (auto simp: inFileAOnly_def)
  next
    case onlyB
    then show ?thesis using ab by (auto simp: inFileBOnly_def)
  qed
qed

theorem remark_of_pair_witness:
  "reconcileFiles utcDay [acmeA] [zenithB] =
     [\<lparr>key = ''G1-INV-1'', dataA = Some acmeA, dataB = Some zenithB, remark = MATCH,
       matchConfidence = Some High, diffs = Some [''Name'']\<rparr>]
   \<and> areValuesEqual (taxableValue acmeA) (taxableValue zenithB)
   \<and> getDiffs utcDay acmeA zenithB = [''Name'']"
  using remark_of_pair[of utcDay "[acmeA]" "[zenithB]"]
  by (simp add: reconcile_acme_zenith split: if_splits)

text \<open>
  C3, as stated, fails: a High-confidence pair with the non-empty diff set \<^verbatim>\<open>Name\<close> is
  remarked \<^verbatim>\<open>Match\<close>, not \<^verbatim>\<open>Partially Matched\<close>.
\<close>

theorem nonempty_diffs_match_counterexample:
  "reconcileFiles utcDay [acmeA] [zenithB] =
     [\<lparr>key = ''G1-INV-1'', dataA = Some acmeA, dataB = Some zenithB, remark = MATCH,
       matchConfidence = Some High, diffs = Some [''Name'']\<rparr>]"
  by code_simp

text \<open>
  C4. An outcome of the fuzzy pass (confidence Low) carries two records whose normalized
  GSTINs are equal; in the scan, a candidate whose normalized GSTIN differs from the one
  of the A record leaves the best match as it was, whatever its name, value and date.
\<close>

theorem fuzzy_same_gstin:
  "(\<forall>r\<in>set (reconcileFiles cd A B). matchConfidence r = Some Low \<longrightarrow>
      (\<exists>a b. dataA r = Some a \<and> dataB r = Some b
             \<and> normalized (GSTIN a) = normalized (GSTIN b)))
   \<and> (normalized (GSTIN itemA) \<noteq> normalized (GSTIN (unmatchedB ! i))
        \<longrightarrow> scanStep itemA unmatchedB bestMatch i = bestMatch)"
proof
  show "\<forall>r\<in>set (reconcileFiles cd A B). matchConfidence r = Some Low \<longrightarrow>
      (\<exists>a b. dataA r = Some a \<and> dataB r = Some b
             \<and> normalized (GSTIN a) = normalized (GSTIN b))"
  proof (intro ballI impI)
    fix r assume r: "r \<in> set (reconcileFiles cd A B)" and low: "matchConfidence r = Some Low"
    from reconcile_shape[OF r] consider
      (exact) "exactOutcome cd r" | (fuzzy) "fuzzyOutcome cd r"
      | (onlyA) "\<exists>a. r = inFileAOnly a" | (onlyB) "\<exists>b. r = inFileBOnly b" by blast
    then show "\<exists>a b. dataA r = Some a \<and> dataB r = Some b
             \<and> normalized (GSTIN a) = normalized (GSTIN b)"
    proof cases
      case exact
      then show ?thesis using low by (auto simp: exactOutcome_def)
    next
      case fuzzy
      then show ?thesis by (auto simp: fuzzyOutcome_def eligible_def)
    next
      case onlyA
      then show ?thesis using low by (auto simp: inFileAOnly_def)
    next
      case onlyB
      then show ?thesis using low by (auto simp: inFileBOnly_def)
    qed
  qed
  show "normalized (GSTIN itemA) \<noteq> normalized (GSTIN (unmatchedB ! i))
        \<longrightarrow> scanStep itemA unmatchedB bestMatch i = bestMatch"
    by (simp add: scanStep_def)
qed

theorem fuzzy_same_gstin_witness:
  "matchConfidence (hd (reconcileFiles utcDay [acmeA] [acmeB])) = Some Low
   \<and> dataA (hd (reconcileFiles utcDay [acmeA] [acmeB])) = Some acmeA
   \<and> dataB (hd (reconcileFiles utcDay [acmeA] [acmeB])) = Some acmeB
   \<and> normalized (GSTIN acmeA) = normalized (GSTIN acmeB)"
  using fuzzy_same_gstin[of utcDay "[acmeA]" "[acmeB]" acmeA "[acmeB]" 0 None]
  by (simp add: reconcile_acme_acme)




text \<open>
  C8. Let two records of B, at positions \<open>i < j\<close>, have the same valid key. After the
  loop over B has passed position \<open>i\<close> the lookup holds the record at \<open>i\<close> under that key,
  and after it has passed position \<open>j\<close> it holds the record at \<open>j\<close> in its place. The
  engine returns its outcomes all the same, and the records they carry as \<^verbatim>\<open>dataB\<close> fit
  into B with the record at \<open>i\<close> taken out; when the records of B are pairwise different,
  the record at \<open>i\<close> is the \<^verbatim>\<open>dataB\<close> of no outcome.
\<close>

theorem duplicate_key_overwrites:
  assumes "i < j" and "j < length B" and "createKey (B ! i) = createKey (B ! j)"
    and "validKey (B ! j)"
  shows "mapGet (buildMapB (take (Suc i) B)) (createKey (B ! i)) = Some (B ! i)
       \<and> mapGet (buildMapB (take (Suc j) B)) (createKey (B ! i)) = Some (B ! j)
       \<and> mset (recordsB (reconcileFiles cd A B)) \<subseteq># mset B - {#B ! i#}
       \<and> (distinct B \<longrightarrow> B ! i \<notin> set (recordsB (reconcileFiles cd A B)))"
proof (intro conjI impI)
  have vi: "validKey (B ! i)" using assms(3,4) validKey_cong by blast
  have "take (Suc i) B = take i B @ [B ! i]"
    using assms by (simp add: take_Suc_conv_app_nth)
  then show "mapGet (buildMapB (take (Suc i) B)) (createKey (B ! i)) = Some (B ! i)"
    using foldl_addToMapB_last[OF vi, of "[]" "take i B"] by (simp add: buildMapB_def)
  have "take (Suc j) B = take j B @ [B ! j]"
    using assms by (simp add: take_Suc_conv_app_nth)
  then show "mapGet (buildMapB (take (Suc j) B)) (createKey (B ! i)) = Some (B ! j)"
    using foldl_addToMapB_last[OF assms(4), of "[]" "take j B"] assms(3)
    by (simp add: buildMapB_def)
  have sub: "mset (recordsB (reconcileFiles cd A B)) \<subseteq># mset (take i B) + mset (drop (Suc i) B)"
    using overwritten_lost[OF assms(1-3)] by (simp add: reconcile_recordsB buildMapB_values)
  then show "mset (recordsB (reconcileFiles cd A B)) \<subseteq># mset B - {#B ! i#}"
    using mset_without_nth[of i B] assms by simp
  assume "distinct B"
  then have "distinct (take i B @ B ! i # drop (Suc i) B)"
    using id_take_nth_drop[of i B] assms by simp
  then have "B ! i \<notin> set (take i B) \<union> set (drop (Suc i) B)" by auto
  then have "B ! i \<notin># mset (take i B) + mset (drop (Suc i) B)" by simp
  then have "B ! i \<notin># mset (recordsB (reconcileFiles cd A B))"
    using sub by (meson mset_subset_eqD)
  then show "B ! i \<notin> set (recordsB (reconcileFiles cd A B))" by simp
qed

theorem duplicate_key_overwrites_witness:
  "createKey bharatB = createKey bharatB2 \<and> validKey bharatB2 \<and> distinct [bharatB, bharatB2]
   \<and> mapGet (buildMapB (take 1 [bharatB, bharatB2])) (createKey bharatB) = Some bharatB
   \<and> mapGet (buildMapB (take 2 [bharatB, bharatB2])) (createKey bharatB) = Some bharatB2
   \<and> bharatB \<notin> set (recordsB (reconcileFiles utcDay [acmeA] [bharatB, bharatB2]))"
  using duplicate_key_overwrites[of 0 1 "[bharatB, bharatB2]" utcDay "[acmeA]"] duplicate_examples
  by simp

text \<open>
  C9, as the code has it. An outcome without \<^verbatim>\<open>dataB\<close> carries a record of A only, under
  that record's key, with the remark \<^verbatim>\<open>In File A only\<close> and neither confidence nor diffs;
  an outcome without \<^verbatim>\<open>dataA\<close> is its mirror, with the remark \<^verbatim>\<open>In File B only\<close>. Every
  record of A that has a valid key is carried exactly once, by a pair or by such a row;
  every record of B that has a valid key and is not followed in B by a record with the same
  key is carried exactly once, by a pair or by such a row.
\<close>

theorem leftover_rows:
  "(\<forall>r\<in>set (reconcileFiles cd A B). dataB r = None \<longrightarrow>
      (\<exists>a. dataA r = Some a \<and> r = inFileAOnly a
           \<and> remarkValue (remark r) = ''In File A only''))
   \<and> (\<forall>r\<in>set (reconcileFiles cd A B). dataA r = None \<longrightarrow>
      (\<exists>b. dataB r = Some b \<and> r = inFileBOnly b
           \<and> remarkValue (remark r) = ''In File B only''))
   \<and> mset (filter validKey A) =
       mset (recordsA (filter paired (reconcileFiles cd A B))) +
       mset (recordsA (filter (\<lambda>r. dataB r = None) (reconcileFiles cd A B)))
   \<and> mset (lastOfKey B) =
       mset (recordsB (filter paired (reconcileFiles cd A B))) +
       mset (recordsB (filter (\<lambda>r. dataA r = None) (reconcileFiles cd A B)))"
proof (intro conjI ballI impI)
  fix r assume r: "r \<in> set (reconcileFiles cd A B)" and none: "dataB r = None"
  from reconcile_shape[OF r] none have "\<exists>a. r = inFileAOnly a"
    by (auto simp: exactOutcome_def fuzzyOutcome_def inFileBOnly_def)
  then show "\<exists>a. dataA r = Some a \<and> r = inFileAOnly a
           \<and> remarkValue (remark r) = ''In File A only''"
    by (auto simp: inFileAOnly_def)
next
  fix r assume r: "r \<in> set (reconcileFiles cd A B)" and none: "dataA r = None"
  from reconcile_shape[OF r] none have "\<exists>b. r = inFileBOnly b"
    by (auto simp: exactOutcome_def fuzzyOutcome_def inFileAOnly_def)
  then show "\<exists>b. dataB r = Some b \<and> r = inFileBOnly b
           \<and> remarkValue (remark r) = ''In File B only''"
    by (auto simp: inFileBOnly_def)
next
  show "mset (filter validKey A) =
       mset (recordsA (filter paired (reconcileFiles cd A B))) +
       mset (recordsA (filter (\<lambda>r. dataB r = None) (reconcileFiles cd A B)))"
    using recordsA_split[of "reconcileFiles cd A B"] by (simp add: reconcile_recordsA)
next
  show "mset (lastOfKey B) =
       mset (recordsB (filter paired (reconcileFiles cd A B))) +
       mset (recordsB (filter (\<lambda>r. dataA r = None) (reconcileFiles cd A B)))"
    using recordsB_split[of "reconcileFiles cd A B"]
    by (simp add: reconcile_recordsB buildMapB_values)
qed

theorem leftover_rows_witness:
  "reconcileFiles utcDay [acmeA, blankRecord] [bharatB] = [inFileAOnly acmeA, inFileBOnly bharatB]
   \<and> remarkValue (remark (inFileAOnly acmeA)) = ''In File A only''
   \<and> remarkValue (remark (inFileBOnly bharatB)) = ''In File B only''
   \<and> filter validKey [acmeA, blankRecord] = [acmeA] \<and> lastOfKey [bharatB] = [bharatB]"
proof -
  note t = leftover_rows[of utcDay "[acmeA, blankRecord]" "[bharatB]"]
  have "inFileAOnly acmeA \<in> set (reconcileFiles utcDay [acmeA, blankRecord] [bharatB])"
    and "dataB (inFileAOnly acmeA) = None"
    by (simp_all add: reconcile_leftovers inFileAOnly_def)
  with t have a: "remarkValue (remark (inFileAOnly acmeA)) = ''In File A only''" by blast
  have "inFileBOnly bharatB \<in> set (reconcileFiles utcDay [acmeA, blankRecord] [bharatB])"
    and "dataA (inFileBOnly bharatB) = None"
    by (simp_all add: reconcile_leftovers inFileBOnly_def)
  with t have b: "remarkValue (remark (inFileBOnly bharatB)) = ''In File B only''" by blast
  show ?thesis
    using a b reconcile_leftovers valid_examples(1) leftovers_valid by blast
qed

text \<open>
  C9, as stated, fails: a record of A with an invalid key is consumed by neither pass (the
  only outcome is the row of the record of B) and yet gets no row of its own.
\<close>

theorem leftover_counterexample:
  "reconcileFiles utcDay [blankRecord] [bharatB] = [inFileBOnly bharatB]
   \<and> blankRecord \<notin> set (recordsA (reconcileFiles utcDay [blankRecord] [bharatB]))
   \<and> blankRecord \<notin> set (recordsB (reconcileFiles utcDay [blankRecord] [bharatB]))"
  by (simp add: reconcile_blank_bharat inFileBOnly_def blank_not_bharat)

end
